theory Spec2Isabelle
  imports Main "HOL-Library.Multiset"
begin

section \<open>Data model\<close>

text \<open>
  The program under verification is the static blog generator whose build path is
  \<open>main\<close>, \<open>renderPost\<close>, \<open>Post.LoadFromFile\<close>, \<open>User.Parse\<close>, \<open>User.Combine\<close>, the
  \<open>Posts\<close> sort interface and the template helper \<open>lop\<close>.  The definitions follow the
  complete program, the source file that also has the watch mode and the feeds.  The file
  \<open>main.go\<close> is a shorter copy of the same program; where it differs, the difference is
  stated next to the definition.

  Go strings and byte slices are lists of bytes (\<open>string\<close>).  A \<open>time.Time\<close> is the
  instant it denotes, an integer count of nanoseconds since the zero \<open>Time\<close>; the zero
  value is \<open>0\<close>.
\<close>

type_synonym time = int

record Tag =
  ID :: int
  Created :: time
  Name :: string

type_synonym Tags = "Tag list"

record User =
  LName :: string
  FName :: string
  Email :: string
  Pubkey :: string
  User :: string

record Post =
  Title :: string
  Description :: string
  Date :: time
  Body :: string
  Author :: User
  Signed :: bool
  Signature :: string
  Tags :: Tags
  URL :: string

type_synonym Posts = "Post list"

text \<open>The zero values \<open>Tag{}\<close>, \<open>User{}\<close> and \<open>Post{}\<close>.\<close>

definition zero_Tag :: Tag where
  "zero_Tag = \<lparr>ID = 0, Created = 0, Name = []\<rparr>"

definition zero_User :: User where
  "zero_User = \<lparr>LName = [], FName = [], Email = [], Pubkey = [], User = []\<rparr>"

definition zero_Post :: Post where
  "zero_Post = \<lparr>Title = [], Description = [], Date = 0, Body = [], Author = zero_User,
     Signed = False, Signature = [], Tags = [], URL = []\<rparr>"

section \<open>Library functions used by the parser\<close>

subsection \<open>Regular expressions\<close>

text \<open>
  The six patterns of the program are built from literal bytes, the class \<open>\s\<close> and the
  capturing group \<open>(.*)\<close>, between \<open>^\<close> and \<open>$\<close>.  Without flags \<open>^\<close> and \<open>$\<close> match only
  at the two ends of the text, \<open>.\<close> is any character but the newline and \<open>\s\<close> is one of
  tab, newline, form feed, carriage return and space.  None of these distinguishes the
  bytes of a multi-byte character, so matching is done on bytes.

  \<open>re_match\<close> is the backtracking search whose first success is the match Go's
  leftmost-first semantics selects: each \<open>(.*)\<close> takes as much as it can, an earlier
  group before a later one.  It returns the texts of the capture groups.
\<close>

definition LF :: char where
  "LF = CHR 0x0A"

definition CR :: char where
  "CR = CHR 0x0D"

definition is_space :: "char \<Rightarrow> bool" where
  "is_space c = (c = CHR 0x09 \<or> c = CHR 0x0A \<or> c = CHR 0x0C \<or> c = CHR 0x0D \<or> c = CHR 0x20)"

datatype re_item = Lit char | Space | AnyStar

type_synonym Regexp = "re_item list"

fun re_match :: "Regexp \<Rightarrow> string \<Rightarrow> string list option" where
  "re_match [] s = (if s = [] then Some [] else None)"
| "re_match (Lit c # r) [] = None"
| "re_match (Lit c # r) (x # xs) = (if x = c then re_match r xs else None)"
| "re_match (Space # r) [] = None"
| "re_match (Space # r) (x # xs) = (if is_space x then re_match r xs else None)"
| "re_match (AnyStar # r) [] = map_option (Cons []) (re_match r [])"
| "re_match (AnyStar # r) (x # xs) =
     (if x = LF then map_option (Cons []) (re_match r (x # xs))
      else (case re_match (AnyStar # r) xs of
              Some (g # gs) \<Rightarrow> Some ((x # g) # gs)
            | _ \<Rightarrow> map_option (Cons []) (re_match r (x # xs))))"

text \<open>\<open>Regexp.Match\<close>: does the pattern match the bytes.\<close>

definition Match :: "Regexp \<Rightarrow> string \<Rightarrow> bool" where
  "Match re b = (re_match re b \<noteq> None)"

text \<open>
  \<open>Regexp.ReplaceAllString(src, "$n")\<close>.  Every pattern here is anchored at both ends, so
  there is at most one match and it covers all of \<open>src\<close>: the result is the text of
  group \<open>n\<close>.  Where the pattern does not match, nothing is replaced and the result is
  \<open>src\<close> itself.
\<close>

definition ReplaceAllString :: "Regexp \<Rightarrow> string \<Rightarrow> nat \<Rightarrow> string" where
  "ReplaceAllString re src n =
     (case re_match re src of
        None \<Rightarrow> src
      | Some gs \<Rightarrow> (if 0 < n \<and> n \<le> length gs then gs ! (n - 1) else []))"

text \<open>The patterns, in the order of their declarations.\<close>

definition AuthorRE :: Regexp where
  "AuthorRE = map Lit ''author:'' @ [Space, AnyStar]"

definition TitleRE :: Regexp where
  "TitleRE = map Lit ''title:'' @ [Space, AnyStar]"

definition DateRE :: Regexp where
  "DateRE = map Lit ''date:'' @ [Space, AnyStar]"

definition TagRE :: Regexp where
  "TagRE = map Lit ''tags:'' @ [Space, AnyStar]"

definition DescRE :: Regexp where
  "DescRE = map Lit ''description:'' @ [Space, AnyStar]"

definition userLineRE :: Regexp where
  "userLineRE = [AnyStar, Space, AnyStar, Space, Lit CHR ''<'', AnyStar, Lit CHR ''>'']"

subsection \<open>Package strings\<close>

text \<open>\<open>strings.Split(s, ",")\<close> for a one-byte separator: never empty, \<open>Split "" = [""]\<close>.\<close>

fun Split :: "string \<Rightarrow> char \<Rightarrow> string list" where
  "Split [] sep = [[]]"
| "Split (c # cs) sep =
     (if c = sep then [] # Split cs sep
      else (case Split cs sep of w # ws \<Rightarrow> (c # w) # ws | [] \<Rightarrow> [[c]]))"

text \<open>
  \<open>strings.TrimSpace\<close> removes the leading and trailing white space of Unicode
  (\<open>unicode.IsSpace\<close>): the six ASCII characters tab, newline, vertical tab, form feed,
  carriage return and space, and U+0085, U+00A0, U+1680, U+2000 to U+200A, U+2028, U+2029,
  U+202F, U+205F, U+3000, here in their UTF-8 encodings.
\<close>

definition space_runes :: "string list" where
  "space_runes =
     [[CHR 0x09], [CHR 0x0A], [CHR 0x0B], [CHR 0x0C], [CHR 0x0D], [CHR 0x20],
      [CHR 0xC2, CHR 0x85], [CHR 0xC2, CHR 0xA0], [CHR 0xE1, CHR 0x9A, CHR 0x80],
      [CHR 0xE2, CHR 0x80, CHR 0x80], [CHR 0xE2, CHR 0x80, CHR 0x81],
      [CHR 0xE2, CHR 0x80, CHR 0x82], [CHR 0xE2, CHR 0x80, CHR 0x83],
      [CHR 0xE2, CHR 0x80, CHR 0x84], [CHR 0xE2, CHR 0x80, CHR 0x85],
      [CHR 0xE2, CHR 0x80, CHR 0x86], [CHR 0xE2, CHR 0x80, CHR 0x87],
      [CHR 0xE2, CHR 0x80, CHR 0x88], [CHR 0xE2, CHR 0x80, CHR 0x89],
      [CHR 0xE2, CHR 0x80, CHR 0x8A], [CHR 0xE2, CHR 0x80, CHR 0xA8],
      [CHR 0xE2, CHR 0x80, CHR 0xA9], [CHR 0xE2, CHR 0x80, CHR 0xAF],
      [CHR 0xE2, CHR 0x81, CHR 0x9F], [CHR 0xE3, CHR 0x80, CHR 0x80]]"

text \<open>The length of the white-space rune a string starts with, \<open>0\<close> when there is none.\<close>

definition leading_space :: "string list \<Rightarrow> string \<Rightarrow> nat" where
  "leading_space runes s =
     (case filter (\<lambda>r. take (length r) s = r) runes of [] \<Rightarrow> 0 | r # _ \<Rightarrow> length r)"

function TrimLeft :: "string list \<Rightarrow> string \<Rightarrow> string" where
  "TrimLeft runes s =
     (if leading_space runes s = 0 \<or> s = [] then s
      else TrimLeft runes (drop (leading_space runes s) s))"
  by pat_completeness auto
termination
  by (relation "measure (\<lambda>(runes, s). length s)") auto

declare TrimLeft.simps [simp del]

definition TrimSpace :: "string \<Rightarrow> string" where
  "TrimSpace s = rev (TrimLeft (map rev space_runes) (rev (TrimLeft space_runes s)))"

text \<open>\<open>md2html\<close> is \<open>strings.Replace(f, ".md", ".html", -1)\<close>: every occurrence, left to right.\<close>

fun md2html :: "string \<Rightarrow> string" where
  "md2html [] = []"
| "md2html (c # cs) =
     (if c = CHR ''.'' \<and> take 2 cs = ''md'' then ''.html'' @ md2html (drop 2 cs)
      else c # md2html cs)"

subsection \<open>The line scanner\<close>

text \<open>
  \<open>bufio.Scanner\<close> with its default buffer and its default split function \<open>ScanLines\<close>:
  each token is the text up to the next newline, without the newline and without one
  carriage return before it; text after the last newline is a token when it is not
  empty.  The buffer holds at most \<open>MaxScanTokenSize\<close> bytes: when the text before the next
  newline (or before the end of the file) has that many bytes or more, \<open>Scan\<close> returns
  false with the error \<open>ErrTooLong\<close> and no further token is delivered.
\<close>

definition MaxScanTokenSize :: nat where
  "MaxScanTokenSize = 64 * 1024"

definition dropCR :: "string \<Rightarrow> string" where
  "dropCR data = (if data \<noteq> [] \<and> last data = CR then butlast data else data)"

function ScanLines :: "string \<Rightarrow> string list" where
  "ScanLines data =
     (if data = [] then []
      else if MaxScanTokenSize \<le> length (takeWhile (\<lambda>c. c \<noteq> LF) data) then []
      else dropCR (takeWhile (\<lambda>c. c \<noteq> LF) data)
             # ScanLines (drop 1 (dropWhile (\<lambda>c. c \<noteq> LF) data)))"
  by pat_completeness auto
termination
proof (relation "measure length")
  show "wf (measure length)" by simp
next
  fix data :: string
  assume "data \<noteq> []"
  moreover have "length (dropWhile (\<lambda>c. c \<noteq> LF) data) \<le> length data"
    by (rule length_dropWhile_le)
  ultimately show "(drop 1 (dropWhile (\<lambda>c. c \<noteq> LF) data), data) \<in> measure length"
    by (cases data) auto
qed

declare ScanLines.simps [simp del]

section \<open>The environment\<close>

text \<open>
  The ways the program stops without returning: \<open>log.Fatal\<close> (the lines logged, then exit
  status 1), \<open>os.Exit\<close> after a line on standard output, and a run-time panic.
\<close>

datatype abort = Fatal "string list" | Exit int string | Panic string

text \<open>
  What \<open>os.Open\<close> and the reads of the scanner find at a path: the file cannot be opened
  (with the error), or it delivers some bytes and then ends, at the end of the file
  (\<open>None\<close>) or at a read error.
\<close>

datatype file_state = NoOpen string | Data string "string option"

text \<open>The value handed to a template: one post wrapped in a struct, or a \<open>content\<close>.\<close>

record content =
  cPosts :: Posts
  cTitle :: string
  cAuthor :: User

datatype page_data = Default Post | Content content

text \<open>
  The libraries and the file system the program runs against:
  \<open>Open\<close> is the file system read through \<open>os.Open\<close>; \<open>ReadDir\<close> is \<open>ioutil.ReadDir\<close>
  (the entry names, or the error); \<open>time_Parse\<close> is \<open>time.Parse(time.RFC1123, _)\<close>
  with its error message; \<open>MarkdownCommon\<close> is the markdown converter; \<open>ParseGlob\<close>,
  \<open>Create\<close> and \<open>ExecuteTemplate\<close> give the error, if any, of loading the templates, of
  creating a destination file and of executing a template; \<open>path_Join\<close> is \<open>path.Join\<close>.
\<close>

record world =
  Open :: "string \<Rightarrow> file_state"
  ReadDir :: "string \<Rightarrow> string + string list"
  time_Parse :: "string \<Rightarrow> string + time"
  MarkdownCommon :: "string \<Rightarrow> string"
  ParseGlob :: "string \<Rightarrow> string option"
  Create :: "string \<Rightarrow> string option"
  ExecuteTemplate :: "string \<Rightarrow> page_data \<Rightarrow> string option"
  path_Join :: "string list \<Rightarrow> string"

section \<open>The frontmatter parser\<close>

text \<open>
  \<open>User.Parse\<close> sets the three name fields from the three groups of \<open>userLineRE\<close> and
  leaves the other fields.
\<close>

definition User_Parse :: "User \<Rightarrow> string \<Rightarrow> User" where
  "User_Parse u s =
     u\<lparr>FName := ReplaceAllString userLineRE s 1,
       LName := ReplaceAllString userLineRE s 2,
       Email := ReplaceAllString userLineRE s 3\<rparr>"

text \<open>
  \<open>User.Combine\<close>, documented as "concatenates FName, LName and Email into one line".
  \<open>Combine_main\<close> is the function of the same name in \<open>main.go\<close>.
\<close>

definition Combine :: "User \<Rightarrow> string" where
  "Combine u = FName u @ '' '' @ LName u"

definition Combine_main :: "User \<Rightarrow> string" where
  "Combine_main u = FName u @ '' '' @ LName u @ '' <'' @ Email u @ ''>''"

text \<open>
  The body of the scanning loop of \<open>Post.LoadFromFile\<close>, one definition for each \<open>if\<close>
  block, on the post and the flag \<open>useLine\<close>.  The progress lines written to standard
  output are left out.  In \<open>main.go\<close> the date block drops the error of \<open>time.Parse\<close>
  and stores the zero time.
\<close>

definition author_block :: "string \<Rightarrow> Post \<times> bool \<Rightarrow> Post \<times> bool" where
  "author_block line = (\<lambda>(p, useLine).
     if Match AuthorRE line
     then (p\<lparr>Author := User_Parse (Author p) (ReplaceAllString AuthorRE line 1)\<rparr>, False)
     else (p, useLine))"

definition title_block :: "string \<Rightarrow> Post \<times> bool \<Rightarrow> Post \<times> bool" where
  "title_block line = (\<lambda>(p, useLine).
     if Match TitleRE line
     then (p\<lparr>Title := ReplaceAllString TitleRE line 1\<rparr>, False)
     else (p, useLine))"

text \<open>The line \<open>log.Printf("error in '%s'\\n", f)\<close> writes.\<close>

definition error_in :: "string \<Rightarrow> string" where
  "error_in f = ''error in '' @ [CHR 0x27] @ f @ [CHR 0x27]"

definition date_block :: "world \<Rightarrow> string \<Rightarrow> string \<Rightarrow> Post \<times> bool \<Rightarrow> abort + Post \<times> bool" where
  "date_block w f line = (\<lambda>(p, useLine).
     if Match DateRE line
     then (case time_Parse w (ReplaceAllString DateRE line 1) of
             Inl err \<Rightarrow> Inl (Fatal [error_in f, err])
           | Inr t \<Rightarrow> Inr (p\<lparr>Date := t\<rparr>, False))
     else Inr (p, useLine))"

definition new_Tag :: "string \<Rightarrow> Tag" where
  "new_Tag tag = zero_Tag\<lparr>Name := TrimSpace tag\<rparr>"

definition tags_block :: "string \<Rightarrow> Post \<times> bool \<Rightarrow> Post \<times> bool" where
  "tags_block line = (\<lambda>(p, useLine).
     if Match TagRE line
     then (p\<lparr>Tags := Tags p @ map new_Tag (Split (ReplaceAllString TagRE line 1) CHR '','')\<rparr>,
           False)
     else (p, useLine))"

definition desc_block :: "string \<Rightarrow> Post \<times> bool \<Rightarrow> Post \<times> bool" where
  "desc_block line = (\<lambda>(p, useLine).
     if Match DescRE line
     then (p\<lparr>Description := ReplaceAllString DescRE line 1\<rparr>, False)
     else (p, useLine))"

definition body_block :: "string \<Rightarrow> Post \<times> bool \<Rightarrow> Post" where
  "body_block line = (\<lambda>(p, useLine).
     if useLine then p\<lparr>Body := Body p @ line @ [LF]\<rparr> else p)"

definition load_line :: "world \<Rightarrow> string \<Rightarrow> string \<Rightarrow> Post \<Rightarrow> abort + Post" where
  "load_line w f line p =
     (case date_block w f line (title_block line (author_block line (p, True))) of
        Inl a \<Rightarrow> Inl a
      | Inr s \<Rightarrow> Inr (body_block line (desc_block line (tags_block line s))))"

fun load_lines :: "world \<Rightarrow> string \<Rightarrow> string list \<Rightarrow> Post \<Rightarrow> abort + Post" where
  "load_lines w f [] p = Inr p"
| "load_lines w f (line # rest) p =
     (case load_line w f line p of
        Inl a \<Rightarrow> Inl a
      | Inr p' \<Rightarrow> load_lines w f rest p')"

text \<open>
  \<open>Post.LoadFromFile\<close> returns the post it has filled and its error result.  The error
  of \<open>os.Open\<close> is returned.  The scanner's own error is never read, so a read error or
  a line too long for the buffer ends the loop like the end of the file, and the result
  is \<open>nil\<close>.
\<close>

definition LoadFromFile :: "world \<Rightarrow> string \<Rightarrow> Post \<Rightarrow> abort + Post \<times> string option" where
  "LoadFromFile w f p =
     (case Open w f of
        NoOpen err \<Rightarrow> Inr (p, Some err)
      | Data bytes read_err \<Rightarrow>
          (case load_lines w f (ScanLines bytes) p of
             Inl a \<Rightarrow> Inl a
           | Inr p' \<Rightarrow> Inr (p', None)))"

text \<open>
  \<open>renderPost\<close> declares \<open>err\<close>, calls \<open>p.LoadFromFile(f)\<close> without using its result,
  and tests \<open>err\<close>, which is still \<open>nil\<close>.
\<close>

definition renderPost :: "world \<Rightarrow> string \<Rightarrow> string \<Rightarrow> abort + Post \<times> string option" where
  "renderPost w f path =
     (let err = (None :: string option) in
      case LoadFromFile w f zero_Post of
        Inl a \<Rightarrow> Inl a
      | Inr (p, _) \<Rightarrow>
          (case err of
             Some e \<Rightarrow> Inl (Fatal [e])
           | None \<Rightarrow>
               Inr (p\<lparr>Body := MarkdownCommon w (Body p), URL := ''/'' @ md2html path\<rparr>, None)))"

section \<open>The post collection\<close>

text \<open>
  Indexing and slicing panic out of range.  \<open>slice p lo hi\<close> is \<open>p[lo:hi]\<close>; the upper
  bound of a slice expression is the capacity, but at both slice expressions of the
  program \<open>hi\<close> is at most the length when the expression is reached, so the length is
  the bound here.
\<close>

definition index :: "'a list \<Rightarrow> int \<Rightarrow> abort + 'a" where
  "index xs i =
     (if 0 \<le> i \<and> i < int (length xs) then Inr (xs ! nat i)
      else Inl (Panic ''index out of range''))"

definition slice :: "'a list \<Rightarrow> int \<Rightarrow> int \<Rightarrow> abort + 'a list" where
  "slice p lo hi =
     (if 0 \<le> lo \<and> lo \<le> hi \<and> hi \<le> int (length p)
      then Inr (take (nat (hi - lo)) (drop (nat lo) p))
      else Inl (Panic ''slice bounds out of range''))"

text \<open>\<open>Time.After\<close> and the three methods of \<open>sort.Interface\<close> on \<open>Posts\<close>.\<close>

definition After :: "time \<Rightarrow> time \<Rightarrow> bool" where
  "After t u = (u < t)"

definition Len :: "Posts \<Rightarrow> int" where
  "Len p = int (length p)"

definition Less :: "Posts \<Rightarrow> int \<Rightarrow> int \<Rightarrow> abort + bool" where
  "Less p i j =
     (case index p i of
        Inl a \<Rightarrow> Inl a
      | Inr x \<Rightarrow> (case index p j of Inl a \<Rightarrow> Inl a | Inr y \<Rightarrow> Inr (After (Date x) (Date y))))"

definition Swap :: "Posts \<Rightarrow> int \<Rightarrow> int \<Rightarrow> abort + Posts" where
  "Swap p i j =
     (case index p i of
        Inl a \<Rightarrow> Inl a
      | Inr x \<Rightarrow> (case index p j of Inl a \<Rightarrow> Inl a | Inr y \<Rightarrow> Inr (p[nat i := y, nat j := x])))"

text \<open>
  \<open>sort.Sort\<close> belongs to the standard library and works through the three methods
  only.  For up to twelve elements it is the insertion sort below, which the library
  also runs on the short ranges its quicksort leaves; the model runs it on the whole
  collection.
  \<^verbatim>\<open>
  for i := a + 1; i < b; i++ {
      for j := i; j > a && data.Less(j, j-1); j-- { data.Swap(j, j-1) }
  }
  \<close>
\<close>

function insert_down :: "Posts \<Rightarrow> int \<Rightarrow> int \<Rightarrow> abort + Posts" where
  "insert_down p a j =
     (if j > a
      then (case Less p j (j - 1) of
              Inl e \<Rightarrow> Inl e
            | Inr lt \<Rightarrow>
                if lt
                then (case Swap p j (j - 1) of
                        Inl e \<Rightarrow> Inl e
                      | Inr p' \<Rightarrow> insert_down p' a (j - 1))
                else Inr p)
      else Inr p)"
  by pat_completeness auto
termination
  by (relation "measure (\<lambda>(p, a, j). nat (j - a))") auto

declare insert_down.simps [simp del]

function insertionSort_from :: "Posts \<Rightarrow> int \<Rightarrow> int \<Rightarrow> int \<Rightarrow> abort + Posts" where
  "insertionSort_from p a b i =
     (if i < b
      then (case insert_down p a i of
              Inl e \<Rightarrow> Inl e
            | Inr p' \<Rightarrow> insertionSort_from p' a b (i + 1))
      else Inr p)"
  by pat_completeness auto
termination
  by (relation "measure (\<lambda>(p, a, b, i). nat (b - i))") auto

declare insertionSort_from.simps [simp del]

definition insertionSort :: "Posts \<Rightarrow> int \<Rightarrow> int \<Rightarrow> abort + Posts" where
  "insertionSort p a b = insertionSort_from p a b (a + 1)"

definition sort_Sort :: "Posts \<Rightarrow> abort + Posts" where
  "sort_Sort p = insertionSort p 0 (Len p)"

section \<open>The template helper \<open>lop\<close>\<close>

text \<open>In \<open>main.go\<close> the helper is the slice expression alone, without the test.\<close>

definition lop :: "Posts \<Rightarrow> int \<Rightarrow> int \<Rightarrow> abort + Posts" where
  "lop p start end' = (if Len p < end' then Inr p else slice p start end')"

section \<open>The build\<close>

text \<open>
  \<open>renderTemplate\<close> creates the destination and executes the template; either error is
  fatal.  The model returns the page written: destination, template name and data.
\<close>

type_synonym page = "string \<times> string \<times> page_data"

definition renderTemplate :: "world \<Rightarrow> string \<Rightarrow> string \<Rightarrow> page_data \<Rightarrow> abort + page" where
  "renderTemplate w dst tmpl d =
     (case Create w dst of
        Some err \<Rightarrow> Inl (Fatal [err])
      | None \<Rightarrow>
          (case ExecuteTemplate w tmpl d of
             Some err \<Rightarrow> Inl (Fatal [dst, err])
           | None \<Rightarrow> Inr (dst, tmpl, d)))"

text \<open>The loop of \<open>main\<close> over the directory entries.\<close>

fun render_files ::
  "world \<Rightarrow> string \<Rightarrow> string \<Rightarrow> string list \<Rightarrow> Posts \<Rightarrow> page list \<Rightarrow> abort + Posts \<times> page list"
where
  "render_files w src dst [] posts pages = Inr (posts, pages)"
| "render_files w src dst (fn # rest) posts pages =
     (let srcFile = path_Join w [src, fn];
          dstFile = path_Join w [dst, ''/posts/'', md2html fn]
      in case renderPost w srcFile (path_Join w [''posts/'', fn]) of
           Inl a \<Rightarrow> Inl a
         | Inr (post, err) \<Rightarrow>
             (case err of
                Some e \<Rightarrow> Inl (Fatal [e])
              | None \<Rightarrow>
                  (case renderTemplate w dstFile ''default.html'' (Default post) of
                     Inl a \<Rightarrow> Inl a
                   | Inr pg \<Rightarrow> render_files w src dst rest (posts @ [post]) (pages @ [pg]))))"

text \<open>One item of the feed, as \<open>main\<close> fills it.\<close>

record Item =
  iTitle :: string
  iDescription :: string
  iLink :: string
  iAuthor :: string
  iCreated :: time

definition feed_item :: "Post \<Rightarrow> Item" where
  "feed_item post =
     \<lparr>iTitle = Title post, iDescription = Body post,
      iLink = ''https://deftly.net'' @ URL post,
      iAuthor = Combine (Author post), iCreated = Date post\<rparr>"

text \<open>What a complete build has written.\<close>

record site =
  post_pages :: "page list"
  index_page :: page
  about_page :: page
  contact_page :: page
  archive_page :: page
  feed_created :: time
  feed_items :: "Item list"

text \<open>
  The part of \<open>main\<close> after \<open>sort.Sort\<close>: the four site pages and the two feeds.
  In \<open>main.go\<close> the archive is rendered with \<open>posts[5:]\<close> without the test on the length.
\<close>

definition render_archive :: "world \<Rightarrow> string \<Rightarrow> Posts \<Rightarrow> abort + page" where
  "render_archive w dst posts =
     (if Len posts < 5
      then renderTemplate w (path_Join w [dst, ''/archive.html'']) ''archive.html''
             (Content \<lparr>cPosts = posts, cTitle = ''Archive'', cAuthor = zero_User\<rparr>)
      else (case slice posts 5 (Len posts) of
              Inl a \<Rightarrow> Inl a
            | Inr rest \<Rightarrow>
                renderTemplate w (path_Join w [dst, ''/archive.html'']) ''archive.html''
                  (Content \<lparr>cPosts = rest, cTitle = ''Archive'', cAuthor = zero_User\<rparr>)))"

definition render_site :: "world \<Rightarrow> string \<Rightarrow> Posts \<Rightarrow> page list \<Rightarrow> abort + site" where
  "render_site w dst posts pages =
     (case renderTemplate w (path_Join w [dst, ''/index.html'']) ''index.html''
             (Content \<lparr>cPosts = posts, cTitle = [], cAuthor = zero_User\<rparr>) of
        Inl a \<Rightarrow> Inl a
      | Inr idx \<Rightarrow>
     (case index posts 0 of
        Inl a \<Rightarrow> Inl a
      | Inr first \<Rightarrow>
     (case renderTemplate w (path_Join w [dst, ''/about.html'']) ''about.html''
             (Content \<lparr>cPosts = [], cTitle = ''About'', cAuthor = Author first\<rparr>) of
        Inl a \<Rightarrow> Inl a
      | Inr about \<Rightarrow>
     (case renderTemplate w (path_Join w [dst, ''/contact.html'']) ''contact.html''
             (Content \<lparr>cPosts = [], cTitle = ''Contact'', cAuthor = Author first\<rparr>) of
        Inl a \<Rightarrow> Inl a
      | Inr contact \<Rightarrow>
     (case render_archive w dst posts of
        Inl a \<Rightarrow> Inl a
      | Inr archive \<Rightarrow>
     (case Create w (path_Join w [dst, ''atom.xml'']) of
        Some err \<Rightarrow> Inl (Fatal [err])
      | None \<Rightarrow>
     (case Create w (path_Join w [dst, ''rss.xml'']) of
        Some err \<Rightarrow> Inl (Fatal [err])
      | None \<Rightarrow>
          Inr \<lparr>post_pages = pages, index_page = idx, about_page = about,
               contact_page = contact, archive_page = archive,
               feed_created = Date first, feed_items = map feed_item posts\<rparr>)))))))"

text \<open>
  The build branch of \<open>main\<close> (the flag \<open>-w\<close> not given), on \<open>os.Args\<close>, the program name
  first.
\<close>

definition main_build :: "world \<Rightarrow> string list \<Rightarrow> abort + site" where
  "main_build w Args =
     (if length Args < 2 then Inl (Exit 1 ''Wrong number of arguments'')
      else
     (case index Args 1 of Inl a \<Rightarrow> Inl a | Inr src \<Rightarrow>
     (case index Args 2 of Inl a \<Rightarrow> Inl a | Inr tmpl \<Rightarrow>
     (case index Args 3 of Inl a \<Rightarrow> Inl a | Inr dst \<Rightarrow>
     (case ParseGlob w (tmpl @ ''/*.html'') of Some err \<Rightarrow> Inl (Fatal [err]) | None \<Rightarrow>
     (case ReadDir w src of Inl err \<Rightarrow> Inl (Fatal [err]) | Inr files \<Rightarrow>
     (case render_files w src dst files [] [] of Inl a \<Rightarrow> Inl a | Inr (posts, pages) \<Rightarrow>
     (case sort_Sort posts of Inl a \<Rightarrow> Inl a | Inr posts' \<Rightarrow>
        render_site w dst posts' pages))))))))"

section \<open>Notions used in the statements\<close>

text \<open>
  The lines of a file: the texts between the newlines, and the text after the last
  newline when it is not empty.  The lines the parser reaches are those before the first
  line of \<open>MaxScanTokenSize\<close> bytes or more: all lines, when no line is that long.
\<close>

function raw_lines :: "string \<Rightarrow> string list" where
  "raw_lines data =
     (if data = [] then []
      else takeWhile (\<lambda>c. c \<noteq> LF) data
             # raw_lines (drop 1 (dropWhile (\<lambda>c. c \<noteq> LF) data)))"
  by pat_completeness auto
termination
proof (relation "measure length")
  show "wf (measure length)" by simp
next
  fix data :: string
  assume "data \<noteq> []"
  moreover have "length (dropWhile (\<lambda>c. c \<noteq> LF) data) \<le> length data"
    by (rule length_dropWhile_le)
  ultimately show "(drop 1 (dropWhile (\<lambda>c. c \<noteq> LF) data), data) \<in> measure length"
    by (cases data) auto
qed

declare raw_lines.simps [simp del]

definition reached_lines :: "string \<Rightarrow> string list" where
  "reached_lines bytes = takeWhile (\<lambda>l. length l < MaxScanTokenSize) (raw_lines bytes)"

text \<open>A line that one of the five frontmatter patterns matches.\<close>

definition frontmatter_match :: "string \<Rightarrow> bool" where
  "frontmatter_match line =
     (Match AuthorRE line \<or> Match TitleRE line \<or> Match DateRE line
      \<or> Match TagRE line \<or> Match DescRE line)"

text \<open>
  The five metadata prefixes as the specification lists them, a line that starts with one
  of them, and the body the specification describes: the lines of the file that start
  with none of the prefixes, each followed by one newline.
\<close>

definition metadata_prefixes :: "string list" where
  "metadata_prefixes = [''author:'', ''title:'', ''date:'', ''tags:'', ''description:'']"

definition starts_with :: "string \<Rightarrow> string \<Rightarrow> bool" where
  "starts_with pre line = (take (length pre) line = pre)"

definition has_metadata_prefix :: "string \<Rightarrow> bool" where
  "has_metadata_prefix line = list_ex (\<lambda>pre. starts_with pre line) metadata_prefixes"





text \<open>The posts a page was rendered with.\<close>

definition page_posts :: "page \<Rightarrow> Posts" where
  "page_posts pg = (case snd (snd pg) of Content c \<Rightarrow> cPosts c | Default post \<Rightarrow> [])"

subsection \<open>An environment for examples\<close>

text \<open>
  A source directory \<open>src\<close> holding the given files, a table of the date texts that
  parse, a markdown converter that changes nothing, templates that always load and
  execute.  Its \<open>path_Join\<close> joins the elements with one slash between them, which is
  what \<open>path.Join\<close> gives on the paths of the examples.
\<close>

definition trim_slashes :: "string \<Rightarrow> string" where
  "trim_slashes s =
     rev (dropWhile (\<lambda>c. c = CHR ''/'') (rev (dropWhile (\<lambda>c. c = CHR ''/'') s)))"

fun join_slash :: "string list \<Rightarrow> string" where
  "join_slash [] = []"
| "join_slash [x] = x"
| "join_slash (x # y # ys) = x @ ''/'' @ join_slash (y # ys)"

definition example_world :: "(string \<times> file_state) list \<Rightarrow> (string \<times> time) list \<Rightarrow> world" where
  "example_world files dates =
     \<lparr>Open = (\<lambda>f. if take 4 f = ''src/''
                  then (case map_of files (drop 4 f) of
                          Some st \<Rightarrow> st
                        | None \<Rightarrow> NoOpen ''no such file or directory'')
                  else NoOpen ''no such file or directory''),
      ReadDir = (\<lambda>d. if d = ''src'' then Inr (map fst files)
                     else Inl ''no such file or directory''),
      time_Parse = (\<lambda>d. case map_of dates d of
                           Some t \<Rightarrow> Inr t
                         | None \<Rightarrow> Inl (''cannot parse '' @ d)),
      MarkdownCommon = (\<lambda>b. b),
      ParseGlob = (\<lambda>pattern. None),
      Create = (\<lambda>dst. None),
      ExecuteTemplate = (\<lambda>tmpl d. None),
      path_Join = (\<lambda>elems. join_slash (map trim_slashes elems))\<rparr>"

definition example_Args :: "string list" where
  "example_Args = [''boring'', ''src'', ''templates'', ''out'']"

definition example_dates :: "(string \<times> time) list" where
  "example_dates =
     [(''Mon, 02 Jan 2006 15:04:05 MST'', 63271836245000000000),
      (''Tue, 03 Jan 2006 15:04:05 MST'', 63271922645000000000)]"

text \<open>The directory with the single file \<open>a.md\<close>.\<close>

definition example_a :: "string \<Rightarrow> world" where
  "example_a bytes = example_world [(''a.md'', Data bytes None)] example_dates"


text \<open>
  A line of \<open>MaxScanTokenSize\<close> bytes, and three files that have it: before a date line
  that does not parse, between two title lines, and between two lines of text.
\<close>

definition long_line :: string where
  "long_line = replicate 65536 CHR ''x''"

definition long_then_date :: string where
  "long_then_date = long_line @ [LF] @ ''date: yesterday'' @ [LF]"

definition long_between_titles :: string where
  "long_between_titles = ''title: A'' @ [LF] @ long_line @ [LF] @ ''title: B'' @ [LF]"

definition long_between_text :: string where
  "long_between_text = ''first'' @ [LF] @ long_line @ [LF] @ ''last'' @ [LF]"

text \<open>Six files, each with a date line only, listed from the oldest to the newest.\<close>

definition six_files :: world where
  "six_files = example_world
     [(''a.md'', Data ''date: 1'' None), (''b.md'', Data ''date: 2'' None),
      (''c.md'', Data ''date: 3'' None), (''d.md'', Data ''date: 4'' None),
      (''e.md'', Data ''date: 5'' None), (''f.md'', Data ''date: 6'' None)]
     [(''1'', 1), (''2'', 2), (''3'', 3), (''4'', 4), (''5'', 5), (''6'', 6)]"

definition dated :: "string \<Rightarrow> time \<Rightarrow> Post" where
  "dated name t = zero_Post\<lparr>Date := t, URL := ''/posts/'' @ name @ ''.html''\<rparr>"

text \<open>The posts of the index page and of the archive page of a build.\<close>

definition indexed :: "abort + site \<Rightarrow> abort + Posts" where
  "indexed = map_sum id (page_posts \<circ> index_page)"

definition archived :: "abort + site \<Rightarrow> abort + Posts" where
  "archived = map_sum id (page_posts \<circ> archive_page)"

section \<open>Evaluation rules\<close>

lemmas example_defs = example_world_def example_Args_def example_dates_def
  trim_slashes_def zero_Post_def zero_User_def zero_Tag_def

lemmas pattern_defs = AuthorRE_def TitleRE_def DateRE_def TagRE_def DescRE_def
  userLineRE_def Match_def ReplaceAllString_def is_space_def LF_def CR_def

lemmas loader_defs = LoadFromFile_def load_line_def author_block_def title_block_def
  date_block_def tags_block_def desc_block_def body_block_def User_Parse_def new_Tag_def

lemmas scan_defs = ScanLines.simps dropCR_def MaxScanTokenSize_def

lemmas trim_defs = TrimSpace_def TrimLeft.simps leading_space_def space_runes_def

lemmas sort_defs = sort_Sort_def insertionSort_def insertionSort_from.simps insert_down.simps
  Less_def Swap_def index_def After_def Len_def

lemmas build_defs = main_build_def render_site_def render_archive_def renderTemplate_def
  renderPost_def feed_item_def Combine_def slice_def

section \<open>The argument check of \<open>main\<close>\<close>

lemma main_no_argument:
  "main_build w [prog] = Inl (Exit 1 ''Wrong number of arguments'')"
  by (simp add: main_build_def)

lemma main_short_Args:
  assumes "length Args = 2 \<or> length Args = 3"
  shows "main_build w Args = Inl (Panic ''index out of range'')"
  using assms by (auto simp: main_build_def index_def)

text \<open>
  Claim C9 says that every build invocation with fewer than three positional arguments
  prints a message and exits with status 1.  The test is \<open>len(os.Args) < 2\<close>, which only
  catches the invocation without any argument.  With one or with two positional
  arguments the test passes and \<open>os.Args[2]\<close>, respectively \<open>os.Args[3]\<close>, panics: no
  message, no exit status 1.
\<close>

theorem main_one_or_two_arguments_panic:
  "main_build w [''boring'', ''src''] = Inl (Panic ''index out of range'')
   \<and> main_build w [''boring'', ''src'', ''templates''] = Inl (Panic ''index out of range'')"
  by (simp add: main_build_def index_def)

section \<open>The helper \<open>lop\<close>\<close>

lemma lop_panics:
  assumes "e \<le> Len p" and "s < 0 \<or> e < s"
  shows "lop p s e = Inl (Panic ''slice bounds out of range'')"
  using assms by (auto simp: lop_def slice_def Len_def)

text \<open>
  Claim C4, as the code has it: when \<open>end\<close> is greater than the length, \<open>lop\<close> returns the
  collection unchanged, whatever \<open>start\<close> is; otherwise, when \<open>0 \<le> start \<le> end\<close>, it
  returns the elements from \<open>start\<close> up to \<open>end\<close>, all of them inside the collection.
\<close>

theorem lop_clamped:
  assumes "Len p < e \<or> (0 \<le> s \<and> s \<le> e)"
  shows "lop p s e = Inr (if Len p < e then p else take (nat (e - s)) (drop (nat s) p))"
  using assms by (auto simp: lop_def slice_def Len_def)

theorem lop_clamped_witness:
  "lop [zero_Post, zero_Post\<lparr>Title := ''b''\<rparr>, zero_Post\<lparr>Title := ''c''\<rparr>] 0 5
     = Inr [zero_Post, zero_Post\<lparr>Title := ''b''\<rparr>, zero_Post\<lparr>Title := ''c''\<rparr>]
   \<and> lop [zero_Post, zero_Post\<lparr>Title := ''b''\<rparr>, zero_Post\<lparr>Title := ''c''\<rparr>] 1 2
     = Inr [zero_Post\<lparr>Title := ''b''\<rparr>]"
  using
    lop_clamped [of "[zero_Post, zero_Post\<lparr>Title := ''b''\<rparr>, zero_Post\<lparr>Title := ''c''\<rparr>]" 5 0]
    lop_clamped [of "[zero_Post, zero_Post\<lparr>Title := ''b''\<rparr>, zero_Post\<lparr>Title := ''c''\<rparr>]" 2 1]
  by (simp add: Len_def)

text \<open>
  Claim C4 as stated fails where \<open>end\<close> is within the length and \<open>start\<close> is greater than
  \<open>end\<close>: on two posts, \<open>lop p 2 1\<close> does not return a slice, the slice expression
  \<open>p[2:1]\<close> panics.
\<close>

theorem lop_start_after_end:
  "lop [zero_Post, zero_Post] 2 1 = Inl (Panic ''slice bounds out of range'')"
  by (simp add: lop_def slice_def Len_def)

section \<open>\<open>User.Parse\<close> and \<open>User.Combine\<close>\<close>

lemma User_Parse_example:
  "User_Parse zero_User ''Jane Doe <jane@example.com>''
     = zero_User\<lparr>FName := ''Jane'', LName := ''Doe'', Email := ''jane@example.com''\<rparr>"
  by (simp add: pattern_defs User_Parse_def)

text \<open>
  Claim C3, as the code has it: for an input that \<open>userLineRE\<close> does not match, no error
  is raised and each of \<open>FName\<close>, \<open>LName\<close> and \<open>Email\<close> is the whole input, since
  \<open>ReplaceAllString\<close> returns a text without a match unchanged.
\<close>

theorem User_Parse_no_match:
  assumes "\<not> Match userLineRE s"
  shows "User_Parse u s = u\<lparr>FName := s, LName := s, Email := s\<rparr>"
  using assms by (simp add: User_Parse_def ReplaceAllString_def Match_def)

theorem User_Parse_no_match_witness:
  "\<not> Match userLineRE ''Jane'' \<and>
   User_Parse zero_User ''Jane''
     = zero_User\<lparr>FName := ''Jane'', LName := ''Jane'', Email := ''Jane''\<rparr>"
proof -
  have h: "\<not> Match userLineRE ''Jane''"
    by (simp add: pattern_defs)
  from h User_Parse_no_match [OF h, of zero_User] show ?thesis by simp
qed

text \<open>
  Claim C3 as stated fails: \<open>Jane\<close> does not have the shape of \<open>userLineRE\<close>, and the three
  fields of the resulting user are \<open>Jane\<close>, not empty.
\<close>

theorem User_Parse_fields_not_empty:
  "\<not> Match userLineRE ''Jane''
   \<and> FName (User_Parse zero_User ''Jane'') = ''Jane''
   \<and> LName (User_Parse zero_User ''Jane'') = ''Jane''
   \<and> Email (User_Parse zero_User ''Jane'') = ''Jane''"
  by (simp add: pattern_defs User_Parse_def)

lemma Combine_main_example:
  "Combine_main (User_Parse zero_User ''Jane Doe <jane@example.com>'')
     = ''Jane Doe <jane@example.com>''"
  by (simp add: pattern_defs User_Parse_def Combine_main_def)

text \<open>
  Claim C2 says that parsing an author line and serialising it again with \<open>User.Combine\<close>
  gives \<open>First Last <email>\<close> back.  \<open>Combine\<close> is documented to concatenate \<open>FName\<close>,
  \<open>LName\<close> and \<open>Email\<close>, and does so in \<open>main.go\<close>, but its body formats the two names
  only: the email address is lost.
\<close>

theorem Combine_drops_Email:
  "LoadFromFile (example_a ''author: Jane Doe <jane@example.com>'') ''src/a.md'' zero_Post
     = Inr (zero_Post\<lparr>Author := zero_User\<lparr>FName := ''Jane'', LName := ''Doe'',
              Email := ''jane@example.com''\<rparr>\<rparr>, None)
   \<and> Combine (zero_User\<lparr>FName := ''Jane'', LName := ''Doe'', Email := ''jane@example.com''\<rparr>)
     = ''Jane Doe''
   \<and> Combine (User_Parse zero_User ''Jane Doe <jane@example.com>'') = ''Jane Doe''"
  by (simp add: example_a_def example_defs loader_defs pattern_defs scan_defs Combine_def)

section \<open>\<open>renderPost\<close> on a file that cannot be opened\<close>

lemma renderPost_NoOpen:
  assumes "Open w f = NoOpen err"
  shows "renderPost w f path
           = Inr (zero_Post\<lparr>Body := MarkdownCommon w [], URL := ''/'' @ md2html path\<rparr>, None)"
  using assms by (simp add: renderPost_def LoadFromFile_def zero_Post_def)

lemma read_error_not_reported:
  assumes "Open w f = Data bytes (Some read_err)"
    and "load_lines w f (ScanLines bytes) p = Inr p'"
  shows "LoadFromFile w f p = Inr (p', None)"
  using assms by (simp add: LoadFromFile_def)

text \<open>
  Claim C6 says that a file that cannot be opened or read is fatal.  \<open>LoadFromFile\<close>
  returns the error of \<open>os.Open\<close>, but \<open>renderPost\<close> drops the result of the call and
  tests its own \<open>err\<close>, which nothing has assigned: for a directory entry \<open>a.md\<close> that cannot
  be opened it returns an empty post with its URL set, and no error, and the build
  completes with that post.
\<close>

theorem renderPost_unreadable_file:
  "LoadFromFile (example_world [(''a.md'', NoOpen ''permission denied'')] []) ''src/a.md'' zero_Post
     = Inr (zero_Post, Some ''permission denied'')
   \<and> renderPost (example_world [(''a.md'', NoOpen ''permission denied'')] []) ''src/a.md''
       ''posts/a.md''
     = Inr (zero_Post\<lparr>URL := ''/posts/a.html''\<rparr>, None)
   \<and> indexed (main_build (example_world [(''a.md'', NoOpen ''permission denied'')] [])
       example_Args)
     = Inr [zero_Post\<lparr>URL := ''/posts/a.html''\<rparr>]"
  by (simp add: build_defs LoadFromFile_def example_defs sort_defs indexed_def page_posts_def)

section \<open>The patterns and the scanner\<close>

lemma re_match_Lits:
  "re_match (map Lit pre @ r) s =
     (if take (length pre) s = pre then re_match r (drop (length pre) s) else None)"
proof (induction pre arbitrary: s)
  case Nil
  then show ?case by simp
next
  case (Cons c pre)
  then show ?case by (cases s) auto
qed

lemma re_match_AnyStar_end:
  "re_match [AnyStar] s = (if LF \<in> set s then None else Some [s])"
  by (induction s) auto

lemma re_match_frontmatter:
  "re_match (map Lit pre @ [Space, AnyStar]) s =
     (if take (length pre) s = pre
      then (case drop (length pre) s of
              [] \<Rightarrow> None
            | c # rest \<Rightarrow> if is_space c \<and> LF \<notin> set rest then Some [rest] else None)
      else None)"
  by (simp add: re_match_Lits re_match_AnyStar_end split: list.splits)


text \<open>The scanner delivers the lines it reaches, each without its carriage return.\<close>

lemma ScanLines_reached: "ScanLines data = map dropCR (reached_lines data)"
proof (induction data rule: ScanLines.induct)
  case (1 data)
  show ?case
  proof (cases "data = []")
    case True
    then show ?thesis
      by (simp add: ScanLines.simps raw_lines.simps reached_lines_def)
  next
    case False
    show ?thesis
    proof (cases "MaxScanTokenSize \<le> length (takeWhile (\<lambda>c. c \<noteq> LF) data)")
      case True
      with False show ?thesis
        unfolding reached_lines_def
        by (subst ScanLines.simps, subst raw_lines.simps) simp
    next
      case short: False
      with False "1.IH" show ?thesis
        unfolding reached_lines_def
        by (subst ScanLines.simps, subst raw_lines.simps) simp
    qed
  qed
qed

lemma reached_lines_all:
  assumes "list_all (\<lambda>l. length l < MaxScanTokenSize) (raw_lines bytes)"
  shows "reached_lines bytes = raw_lines bytes"
  using assms by (simp add: reached_lines_def takeWhile_eq_all_conv list_all_iff)

lemma raw_lines_line:
  assumes "LF \<notin> set x"
  shows "raw_lines (x @ LF # rest) = x # raw_lines rest"
proof -
  from assms have "\<forall>c\<in>set x. c \<noteq> LF" by auto
  then have "takeWhile (\<lambda>c. c \<noteq> LF) (x @ LF # rest) = x"
    and "dropWhile (\<lambda>c. c \<noteq> LF) (x @ LF # rest) = LF # rest"
    by (simp_all add: takeWhile_append2 dropWhile_append2)
  then show ?thesis by (subst raw_lines.simps) simp
qed

lemma ScanLines_line:
  assumes "LF \<notin> set x" and "length x < MaxScanTokenSize"
  shows "ScanLines (x @ LF # rest) = dropCR x # ScanLines rest"
  using assms by (simp add: ScanLines_reached reached_lines_def raw_lines_line)

lemma ScanLines_long:
  assumes "LF \<notin> set x" and "MaxScanTokenSize \<le> length x"
  shows "ScanLines (x @ LF # rest) = []"
  using assms by (simp add: ScanLines_reached reached_lines_def raw_lines_line)

lemma long_line_facts:
  "LF \<notin> set long_line" "length long_line = MaxScanTokenSize"
  "long_line = CHR ''x'' # replicate 65535 CHR ''x''"
proof -
  show "LF \<notin> set long_line" by (simp add: long_line_def LF_def)
  show "length long_line = MaxScanTokenSize" by (simp add: long_line_def MaxScanTokenSize_def)
  have "(65536 :: nat) = Suc 65535" by simp
  then show "long_line = CHR ''x'' # replicate 65535 CHR ''x''"
    unfolding long_line_def by (simp only: replicate_Suc)
qed


lemma long_files:
  "long_then_date = long_line @ LF # (''date: yesterday'' @ [LF])"
  "long_between_titles = ''title: A'' @ LF # (long_line @ LF # (''title: B'' @ [LF]))"
  "long_between_text = ''first'' @ LF # (long_line @ LF # (''last'' @ [LF]))"
  by (simp_all add: long_then_date_def long_between_titles_def long_between_text_def)

lemma raw_lines_last_line:
  assumes "LF \<notin> set x"
  shows "raw_lines (x @ [LF]) = [x]"
  using raw_lines_line [OF assms, of "[]"] by (simp add: raw_lines.simps)

lemma long_raw_lines:
  "raw_lines long_then_date = [long_line, ''date: yesterday'']"
  "raw_lines long_between_titles = [''title: A'', long_line, ''title: B'']"
  "raw_lines long_between_text = [''first'', long_line, ''last'']"
proof -
  have date: "raw_lines (''date: yesterday'' @ [LF]) = [''date: yesterday'']"
    and title: "raw_lines (''title: B'' @ [LF]) = [''title: B'']"
    and last: "raw_lines (''last'' @ [LF]) = [''last'']"
    by (rule raw_lines_last_line, simp add: LF_def)+
  have A: "LF \<notin> set ''title: A''" and first: "LF \<notin> set ''first''"
    by (simp_all add: LF_def)
  show "raw_lines long_then_date = [long_line, ''date: yesterday'']"
    unfolding long_files by (simp only: raw_lines_line [OF long_line_facts(1)] date)
  show "raw_lines long_between_titles = [''title: A'', long_line, ''title: B'']"
    unfolding long_files
    by (simp only: raw_lines_line [OF A] raw_lines_line [OF long_line_facts(1)] title)
  show "raw_lines long_between_text = [''first'', long_line, ''last'']"
    unfolding long_files
    by (simp only: raw_lines_line [OF first] raw_lines_line [OF long_line_facts(1)] last)
qed

lemma long_ScanLines:
  "ScanLines long_then_date = []"
  "ScanLines long_between_titles = [''title: A'']"
  "ScanLines long_between_text = [''first'']"
  by (simp_all add: ScanLines_reached reached_lines_def long_raw_lines long_line_facts(2)
      MaxScanTokenSize_def dropCR_def CR_def)



text \<open>The value of a frontmatter line is the text after the white-space character.\<close>

lemma ReplaceAllString_frontmatter:
  assumes "Match (map Lit pre @ [Space, AnyStar]) line"
  shows "ReplaceAllString (map Lit pre @ [Space, AnyStar]) line 1 = drop (Suc (length pre)) line"
proof -
  from assms obtain c rest where "drop (length pre) line = c # rest"
    and "re_match (map Lit pre @ [Space, AnyStar]) line = Some [rest]"
    by (auto simp: Match_def re_match_frontmatter split: if_splits list.splits)
  moreover from this have "drop (Suc (length pre)) line = rest"
    by (metis drop_Suc list.sel(3) tl_drop)
  ultimately show ?thesis by (simp add: ReplaceAllString_def)
qed

section \<open>One line of the scanning loop\<close>

lemma load_line_Body:
  assumes "load_line w f line p = Inr p'"
  shows "Body p' = Body p @ (if frontmatter_match line then [] else line @ [LF])"
  using assms
  by (auto simp: load_line_def author_block_def title_block_def date_block_def
      tags_block_def desc_block_def body_block_def frontmatter_match_def
      split: if_splits sum.splits)






lemma load_line_Inl:
  "load_line w f line p = Inl a \<longleftrightarrow>
     Match DateRE line \<and>
     (\<exists>err. time_Parse w (ReplaceAllString DateRE line 1) = Inl err
            \<and> a = Fatal [error_in f, err])"
  by (auto simp: load_line_def author_block_def title_block_def date_block_def
      split: if_splits sum.splits)

section \<open>The scanning loop\<close>

lemma load_lines_Cons_Inr:
  assumes "load_lines w f (l # ls) p = Inr p'"
  obtains p1 where "load_line w f l p = Inr p1" and "load_lines w f ls p1 = Inr p'"
  using assms by (auto split: sum.splits)

lemma load_lines_Body:
  "load_lines w f ls p = Inr p' \<Longrightarrow>
   Body p' = Body p @ concat (map (\<lambda>l. l @ [LF]) (filter (\<lambda>l. \<not> frontmatter_match l) ls))"
proof (induction ls arbitrary: p)
  case Nil
  then show ?case by simp
next
  case (Cons l ls)
  from Cons.prems obtain p1 where p1: "load_line w f l p = Inr p1"
    and rest: "load_lines w f ls p1 = Inr p'"
    by (rule load_lines_Cons_Inr)
  from load_line_Body [OF p1] Cons.IH [OF rest] show ?case by simp
qed








lemma load_line_bad_date:
  assumes "Match DateRE l" and "time_Parse w (ReplaceAllString DateRE l 1) = Inl err"
  shows "load_line w f l p = Inl (Fatal [error_in f, err])"
  using assms
  by (simp add: load_line_def author_block_def title_block_def date_block_def
      split: if_splits sum.splits)

lemma load_lines_bad_date:
  assumes "l \<in> set ls" and "Match DateRE l"
    and "time_Parse w (ReplaceAllString DateRE l 1) = Inl err"
  shows "\<exists>err'. load_lines w f ls p = Inl (Fatal [error_in f, err'])"
  using assms(1)
proof (induction ls arbitrary: p)
  case Nil
  then show ?case by simp
next
  case (Cons x xs)
  show ?case
  proof (cases "load_line w f x p")
    case (Inl a)
    then obtain err' where "a = Fatal [error_in f, err']"
      unfolding load_line_Inl by blast
    moreover have "load_lines w f (x # xs) p = Inl a"
      by (simp add: Inl)
    ultimately show ?thesis by blast
  next
    case (Inr p1)
    have "x \<noteq> l"
    proof
      assume "x = l"
      with load_line_bad_date [OF assms(2,3), of f p] Inr show False by simp
    qed
    with Cons.prems have "l \<in> set xs" by simp
    from Cons.IH [OF this] Inr show ?thesis by simp
  qed
qed

section \<open>The body\<close>

lemma LoadFromFile_load_lines:
  assumes "Open w f = Data bytes read_err"
  shows "LoadFromFile w f p = Inr (p', err) \<longleftrightarrow>
           load_lines w f (map dropCR (reached_lines bytes)) p = Inr p' \<and> err = None"
  using assms by (auto simp: LoadFromFile_def ScanLines_reached split: sum.splits)






text \<open>
  The body of a file with a line of 65536 bytes between two lines of text is the first
  line only, where the lines of the file without metadata prefix are all three.
\<close>

lemma long_line_ends_body:
  "LoadFromFile (example_a long_between_text) ''src/a.md'' zero_Post
     = Inr (zero_Post\<lparr>Body := ''first'' @ [LF]\<rparr>, None)
   \<and> filter (\<lambda>l. \<not> has_metadata_prefix l) (map dropCR (raw_lines long_between_text))
     = [''first'', long_line, ''last'']"
proof -
  have "load_lines (example_a long_between_text) ''src/a.md'' [''first''] zero_Post
     = Inr (zero_Post\<lparr>Body := ''first'' @ [LF]\<rparr>)"
    by (simp add: loader_defs pattern_defs zero_Post_def)
  moreover have "Open (example_a long_between_text) ''src/a.md'' = Data long_between_text None"
    by (simp add: example_a_def example_defs)
  moreover have "dropCR long_line = long_line" "\<not> has_metadata_prefix long_line"
    by (simp_all add: long_line_facts(3) dropCR_def CR_def has_metadata_prefix_def
        metadata_prefixes_def starts_with_def)
  ultimately show ?thesis
    by (simp add: LoadFromFile_def long_ScanLines long_raw_lines dropCR_def CR_def
        has_metadata_prefix_def metadata_prefixes_def starts_with_def)
qed

text \<open>When no line has 65536 bytes or more, the body is made of all the lines of the file.\<close>

lemma LoadFromFile_Body_short_lines:
  assumes "Open w f = Data bytes read_err"
    and "LoadFromFile w f p = Inr (p', err)"
    and "list_all (\<lambda>l. length l < MaxScanTokenSize) (raw_lines bytes)"
  shows "Body p' = Body p @ concat (map (\<lambda>l. l @ [LF])
            (filter (\<lambda>l. \<not> frontmatter_match l) (map dropCR (raw_lines bytes))))"
proof -
  from assms(1,2) have "load_lines w f (map dropCR (reached_lines bytes)) p = Inr p'"
    by (simp add: LoadFromFile_load_lines)
  from load_lines_Body [OF this] reached_lines_all [OF assms(3)] show ?thesis by simp
qed

section \<open>Repeated metadata lines\<close>


lemma tags_example:
  "map TrimSpace (Split ''go, Web , cli'' CHR '','') = [''go'', ''Web'', ''cli'']"
  by (simp add: trim_defs)







section \<open>A date that does not parse\<close>




lemma bad_date_example:
  "renderPost (example_a (''title: x'' @ [LF] @ ''date: yesterday'')) ''src/a.md'' ''posts/a.md''
     = Inl (Fatal [''error in '' @ [CHR 0x27] @ ''src/a.md'' @ [CHR 0x27],
                  ''cannot parse yesterday''])"
  by (simp add: renderPost_def example_a_def example_defs loader_defs pattern_defs scan_defs
      error_in_def)


text \<open>
  A build does not complete when a file of the directory has a date that does not parse
  on a line the parser reaches.
\<close>

lemma renderPost_bad_date:
  assumes "Open w f = Data bytes read_err"
    and "l \<in> set (ScanLines bytes)"
    and "Match DateRE l"
    and "time_Parse w (ReplaceAllString DateRE l 1) = Inl err"
  shows "\<exists>e. renderPost w f path = Inl (Fatal [error_in f, e])"
  using load_lines_bad_date [OF assms(2,3,4), of f zero_Post] assms(1)
  by (auto simp: renderPost_def LoadFromFile_def)

lemma render_files_Inr_renderPost:
  assumes "render_files w src dst fs posts pages = Inr r" and "fn \<in> set fs"
  shows "\<exists>x. renderPost w (path_Join w [src, fn]) (path_Join w [''posts/'', fn]) = Inr x"
  using assms
proof (induction fs arbitrary: posts pages)
  case Nil
  then show ?case by simp
next
  case (Cons g fs)
  from Cons.prems(1) obtain post pg where
    g: "renderPost w (path_Join w [src, g]) (path_Join w [''posts/'', g]) = Inr (post, None)"
    and rest: "render_files w src dst fs (posts @ [post]) (pages @ [pg]) = Inr r"
    by (auto simp: Let_def split: sum.splits option.splits prod.splits)
  show ?case
  proof (cases "fn = g")
    case True
    with g show ?thesis by blast
  next
    case False
    with Cons.prems(2) have "fn \<in> set fs" by simp
    from Cons.IH [OF rest this] show ?thesis .
  qed
qed

lemma build_aborts_on_bad_date:
  assumes "ReadDir w (Args ! 1) = Inr files"
    and "fn \<in> set files"
    and "Open w (path_Join w [Args ! 1, fn]) = Data bytes read_err"
    and "l \<in> set (ScanLines bytes)"
    and "Match DateRE l"
    and "time_Parse w (ReplaceAllString DateRE l 1) = Inl err"
  shows "\<exists>a. main_build w Args = Inl a"
proof (cases "main_build w Args")
  case (Inl a)
  then show ?thesis by blast
next
  case (Inr out)
  then have "4 \<le> length Args"
    by (auto simp: main_build_def index_def split: if_splits)
  with Inr assms(1) obtain r where
    "render_files w (Args ! 1) (Args ! 3) files [] [] = Inr r"
    by (auto simp: main_build_def index_def split: if_splits sum.splits option.splits)
  from render_files_Inr_renderPost [OF this assms(2)]
    renderPost_bad_date [OF assms(3,4,5,6), of "path_Join w [''posts/'', fn]"]
  show ?thesis by auto
qed

section \<open>Sorting\<close>

lemma insert_down_ordered:
  assumes "0 < j" and "j < int (length p)"
    and "Date (p ! nat j) \<le> Date (p ! nat (j - 1))"
  shows "insert_down p 0 j = Inr p"
  using assms
  by (subst insert_down.simps) (simp add: Less_def index_def After_def)

lemma insertionSort_from_ordered:
  assumes "sorted_wrt (\<lambda>x y. Date y \<le> Date x) p" and "0 < i"
  shows "insertionSort_from p 0 (Len p) i = Inr p"
  using assms
proof (induction p "0::int" "Len p" i rule: insertionSort_from.induct)
  case (1 p i)
  show ?case
  proof (cases "i < Len p")
    case True
    with "1.prems" have "Date (p ! nat i) \<le> Date (p ! nat (i - 1))"
      by (auto simp: sorted_wrt_iff_nth_less Len_def)
    with True "1.prems" have step: "insert_down p 0 i = Inr p"
      by (intro insert_down_ordered) (auto simp: Len_def)
    from "1.hyps" [OF True step] "1.prems" have "insertionSort_from p 0 (Len p) (i + 1) = Inr p"
      by simp
    with True step show ?thesis
      by (subst insertionSort_from.simps) simp
  next
    case False
    then show ?thesis by (subst insertionSort_from.simps) simp
  qed
qed

text \<open>
  Claim C8: a collection whose dates are pairwise distinct and that is ordered from the
  most recent to the oldest comes out of the sort as it went in.
\<close>

theorem sort_Sort_idempotent:
  assumes "distinct (map Date p)"
    and "sorted_wrt (\<lambda>x y. Date y \<le> Date x) p"
  shows "sort_Sort p = Inr p"
  using insertionSort_from_ordered [OF assms(2), of 1]
  by (simp add: sort_Sort_def insertionSort_def)

lemma Swap_length: "Swap p i j = Inr p' \<Longrightarrow> length p' = length p"
  by (auto simp: Swap_def index_def split: if_splits)

lemma insert_down_length: "insert_down p a j = Inr p' \<Longrightarrow> length p' = length p"
proof (induction p a j rule: insert_down.induct)
  case (1 p a j)
  show ?case
  proof (cases "j > a \<and> Less p j (j - 1) = Inr True")
    case True
    with "1.prems" obtain q where q: "Swap p j (j - 1) = Inr q"
      and rest: "insert_down q a (j - 1) = Inr p'"
      by (subst (asm) insert_down.simps) (auto split: sum.splits)
    from True q rest have "length p' = length q"
      by (intro "1.IH") auto
    with Swap_length [OF q] show ?thesis by simp
  next
    case False
    with "1.prems" show ?thesis
      by (subst (asm) insert_down.simps) (auto split: if_splits sum.splits)
  qed
qed

lemma insertionSort_from_length:
  "insertionSort_from p a b i = Inr p' \<Longrightarrow> length p' = length p"
proof (induction p a b i rule: insertionSort_from.induct)
  case (1 p a b i)
  show ?case
  proof (cases "i < b")
    case True
    with "1.prems" obtain q where q: "insert_down p a i = Inr q"
      and rest: "insertionSort_from q a b (i + 1) = Inr p'"
      by (subst (asm) insertionSort_from.simps) (auto split: sum.splits)
    from "1.IH" [OF True q rest] insert_down_length [OF q] show ?thesis by simp
  next
    case False
    with "1.prems" show ?thesis
      by (subst (asm) insertionSort_from.simps) simp
  qed
qed

lemma sort_Sort_length: "sort_Sort p = Inr p' \<Longrightarrow> length p' = length p"
  by (auto simp: sort_Sort_def insertionSort_def dest: insertionSort_from_length)

theorem sort_Sort_idempotent_witness:
  "distinct (map Date [dated ''c'' 3, dated ''b'' 2, dated ''a'' 1])
   \<and> sorted_wrt (\<lambda>x y. Date y \<le> Date x) [dated ''c'' 3, dated ''b'' 2, dated ''a'' 1]
   \<and> sort_Sort [dated ''c'' 3, dated ''b'' 2, dated ''a'' 1]
        = Inr [dated ''c'' 3, dated ''b'' 2, dated ''a'' 1]"
proof -
  have 1: "distinct (map Date [dated ''c'' 3, dated ''b'' 2, dated ''a'' 1])"
    by (simp add: dated_def)
  have 2: "sorted_wrt (\<lambda>x y. Date y \<le> Date x) [dated ''c'' 3, dated ''b'' 2, dated ''a'' 1]"
    by (simp add: dated_def)
  from 1 2 sort_Sort_idempotent [OF 1 2] show ?thesis by simp
qed

text \<open>
  The sort never panics, and its result is the collection rearranged from the most recent
  post to the oldest.
\<close>

lemma Less_in_range:
  assumes "Suc n < length p"
  shows "Less p (int (Suc n)) (int (Suc n) - 1) = Inr (Date (p ! n) < Date (p ! Suc n))"
  using assms by (simp add: Less_def index_def After_def nat_add_distrib)

lemma Swap_in_range:
  assumes "Suc n < length p"
  shows "Swap p (int (Suc n)) (int (Suc n) - 1) = Inr (p[Suc n := p ! n, n := p ! Suc n])"
  using assms by (simp add: Swap_def index_def nat_add_distrib)

lemma insert_down_sorts:
  assumes "n \<le> m" and "m < length p"
    and "\<And>a b. a < b \<Longrightarrow> b \<le> m \<Longrightarrow> a \<noteq> n \<Longrightarrow> b \<noteq> n \<Longrightarrow> Date (p ! b) \<le> Date (p ! a)"
    and "\<And>b. n < b \<Longrightarrow> b \<le> m \<Longrightarrow> Date (p ! b) < Date (p ! n)"
  shows "\<exists>q. insert_down p 0 (int n) = Inr q \<and> mset q = mset p \<and> length q = length p
           \<and> (\<forall>a b. a < b \<and> b \<le> m \<longrightarrow> Date (q ! b) \<le> Date (q ! a))"
  using assms
proof (induction n arbitrary: p)
  case 0
  have "insert_down p 0 0 = Inr p"
    by (subst insert_down.simps) simp
  moreover have "Date (p ! b) \<le> Date (p ! a)" if "a < b" "b \<le> m" for a b
  proof (cases "a = 0")
    case True
    with that "0.prems"(4) [of b] show ?thesis by simp
  next
    case False
    with that "0.prems"(3) [of a b] show ?thesis by simp
  qed
  ultimately show ?case by auto
next
  case (Suc n)
  from Suc.prems(1,2) have range: "Suc n < length p" by simp
  show ?case
  proof (cases "Date (p ! n) < Date (p ! Suc n)")
    case True
    let ?p = "p[Suc n := p ! n, n := p ! Suc n]"
    have step: "insert_down p 0 (int (Suc n)) = insert_down ?p 0 (int n)"
      using True Less_in_range [OF range] Swap_in_range [OF range]
      by (subst insert_down.simps) simp
    have nth: "?p ! i = (if i = n then p ! Suc n else if i = Suc n then p ! n else p ! i)" for i
      using range by (simp add: nth_list_update)
    have "\<exists>q. insert_down ?p 0 (int n) = Inr q \<and> mset q = mset ?p \<and> length q = length ?p
           \<and> (\<forall>a b. a < b \<and> b \<le> m \<longrightarrow> Date (q ! b) \<le> Date (q ! a))"
    proof (rule Suc.IH)
      show "n \<le> m" using Suc.prems(1) by simp
      show "m < length ?p" using Suc.prems(2) by simp
    next
      fix a b
      assume ab: "a < b" "b \<le> m" "a \<noteq> n" "b \<noteq> n"
      show "Date (?p ! b) \<le> Date (?p ! a)"
      proof (cases "b = Suc n")
        case True
        with ab have "a < n" by simp
        with Suc.prems(3) [of a n] Suc.prems(1) True ab show ?thesis
          by (simp add: nth)
      next
        case b: False
        show ?thesis
        proof (cases "a = Suc n")
          case True
          with ab Suc.prems(3) [of n b] b show ?thesis by (simp add: nth)
        next
          case False
          with ab b Suc.prems(3) [of a b] show ?thesis by (simp add: nth)
        qed
      qed
    next
      fix b
      assume b: "n < b" "b \<le> m"
      show "Date (?p ! b) < Date (?p ! n)"
      proof (cases "b = Suc n")
        case True
        with \<open>Date (p ! n) < Date (p ! Suc n)\<close> show ?thesis by (simp add: nth)
      next
        case False
        with b Suc.prems(4) [of b] show ?thesis by (simp add: nth)
      qed
    qed
    moreover have "mset ?p = mset p"
      using range by (simp add: mset_swap)
    ultimately show ?thesis using step by auto
  next
    case False
    have "insert_down p 0 (int (Suc n)) = Inr p"
      using False Less_in_range [OF range]
      by (subst insert_down.simps) simp
    moreover have "Date (p ! b) \<le> Date (p ! a)" if ab: "a < b" "b \<le> m" for a b
    proof -
      consider "a = Suc n" | "b = Suc n" "a = n" | "b = Suc n" "a < n"
        | "a \<noteq> Suc n" "b \<noteq> Suc n"
        using ab by linarith
      then show ?thesis
      proof cases
        case 1
        with ab Suc.prems(4) [of b] show ?thesis by simp
      next
        case 2
        with False show ?thesis by simp
      next
        case 3
        with Suc.prems(3) [of a n] Suc.prems(1) False show ?thesis by simp
      next
        case 4
        with ab Suc.prems(3) [of a b] show ?thesis by simp
      qed
    qed
    ultimately show ?thesis by auto
  qed
qed

lemma insertionSort_from_sorts:
  assumes "0 < i"
    and "\<And>a b. a < b \<Longrightarrow> b < i \<Longrightarrow> b < length p \<Longrightarrow> Date (p ! b) \<le> Date (p ! a)"
  shows "\<exists>q. insertionSort_from p 0 (Len p) (int i) = Inr q \<and> mset q = mset p
           \<and> sorted_wrt (\<lambda>x y. Date y \<le> Date x) q"
  using assms
proof (induction "length p - i" arbitrary: p i)
  case 0
  then have "insertionSort_from p 0 (Len p) (int i) = Inr p"
    by (subst insertionSort_from.simps) (simp add: Len_def)
  moreover have "sorted_wrt (\<lambda>x y. Date y \<le> Date x) p"
    using 0 by (simp add: sorted_wrt_iff_nth_less)
  ultimately show ?case by simp
next
  case (Suc d)
  then have i: "i < length p" by simp
  have "\<exists>q. insert_down p 0 (int i) = Inr q \<and> mset q = mset p \<and> length q = length p
           \<and> (\<forall>a b. a < b \<and> b \<le> i \<longrightarrow> Date (q ! b) \<le> Date (q ! a))"
    using i Suc.prems(2) by (intro insert_down_sorts) auto
  then obtain q where q: "insert_down p 0 (int i) = Inr q" "mset q = mset p"
    "length q = length p" "\<And>a b. a < b \<Longrightarrow> b \<le> i \<Longrightarrow> Date (q ! b) \<le> Date (q ! a)"
    by blast
  have "\<exists>r. insertionSort_from q 0 (Len q) (int (Suc i)) = Inr r \<and> mset r = mset q
           \<and> sorted_wrt (\<lambda>x y. Date y \<le> Date x) r"
    using Suc.hyps(2) q(3,4) by (intro Suc.hyps(1)) auto
  moreover have "insertionSort_from p 0 (Len p) (int i)
      = insertionSort_from q 0 (Len q) (int (Suc i))"
    using i q(1,3) by (subst insertionSort_from.simps) (simp add: Len_def add.commute)
  ultimately show ?case using q(2) by auto
qed

lemma sort_Sort_sorts:
  "\<exists>q. sort_Sort p = Inr q \<and> mset q = mset p \<and> sorted_wrt (\<lambda>x y. Date y \<le> Date x) q"
  using insertionSort_from_sorts [of 1 p]
  by (simp add: sort_Sort_def insertionSort_def)

text \<open>
  The result does not depend on how the library sorts: the ordered arrangement of posts
  with distinct dates is unique.
\<close>

lemma descending_unique:
  fixes xs ys :: "int list"
  assumes "sorted_wrt (\<lambda>x y. y \<le> x) xs" and "sorted_wrt (\<lambda>x y. y \<le> x) ys"
    and "mset xs = mset ys"
  shows "xs = ys"
proof -
  have "sorted (rev xs)" "sorted (rev ys)"
    using assms(1,2) by (simp_all add: sorted_wrt_rev)
  moreover have "mset (rev xs) = mset (rev ys)"
    using assms(3) by simp
  ultimately have "rev xs = rev ys"
    by (metis properties_for_sort)
  then show ?thesis by simp
qed

lemma ordered_permutation_unique:
  assumes "distinct (map Date p)"
    and "sorted_wrt (\<lambda>x y. Date y \<le> Date x) p"
    and "mset q = mset p"
    and "sorted_wrt (\<lambda>x y. Date y \<le> Date x) q"
  shows "q = p"
proof -
  have "mset (map Date q) = mset (map Date p)"
    using assms(3) by (metis mset_map)
  moreover have "sorted_wrt (\<lambda>x y. y \<le> x) (map Date p)" "sorted_wrt (\<lambda>x y. y \<le> x) (map Date q)"
    using assms(2,4) by (simp_all add: sorted_wrt_map)
  ultimately have eq: "map Date q = map Date p"
    by (intro descending_unique)
  have "set q = set p"
    using assms(3) by (rule mset_eq_setD)
  moreover have "inj_on Date (set p)"
    using assms(1) by (simp add: distinct_map)
  ultimately have "inj_on Date (set q \<union> set p)" by simp
  with eq show ?thesis by (simp add: inj_on_map_eq_map)
qed

section \<open>The archive\<close>

lemma render_files_length:
  "render_files w src dst fs posts pages = Inr (posts', pages') \<Longrightarrow>
   length posts' = length posts + length fs"
proof (induction fs arbitrary: posts pages)
  case Nil
  then show ?case by simp
next
  case (Cons fn fs)
  from Cons.prems obtain post pg where
    "render_files w src dst fs (posts @ [post]) (pages @ [pg]) = Inr (posts', pages')"
    by (auto simp: Let_def split: sum.splits option.splits prod.splits)
  from Cons.IH [OF this] show ?case by simp
qed

lemma renderTemplate_Inr:
  "renderTemplate w dst tmpl d = Inr pg \<Longrightarrow> pg = (dst, tmpl, d)"
  by (auto simp: renderTemplate_def split: option.splits)

lemma render_archive_posts:
  assumes "render_archive w dst posts = Inr pg"
  shows "page_posts pg = (if length posts < 5 then posts else drop 5 posts)"
  using assms
  by (auto simp: render_archive_def Len_def slice_def page_posts_def
      split: if_splits sum.splits dest!: renderTemplate_Inr)

lemma render_site_posts:
  assumes "render_site w dst posts pages = Inr out"
  shows "page_posts (index_page out) = posts"
    and "page_posts (archive_page out) = (if length posts < 5 then posts else drop 5 posts)"
proof -
  from assms obtain idx archive where
    idx: "renderTemplate w (path_Join w [dst, ''/index.html'']) ''index.html''
             (Content \<lparr>cPosts = posts, cTitle = [], cAuthor = zero_User\<rparr>) = Inr idx"
    and archive: "render_archive w dst posts = Inr archive"
    and out: "index_page out = idx" "archive_page out = archive"
    unfolding render_site_def by (fastforce split: sum.splits option.splits)
  from renderTemplate_Inr [OF idx] out show "page_posts (index_page out) = posts"
    by (simp add: page_posts_def)
  from render_archive_posts [OF archive] out
  show "page_posts (archive_page out) = (if length posts < 5 then posts else drop 5 posts)"
    by simp
qed

lemma six_renderPost:
  "renderPost six_files ''src/a.md'' ''posts/a.md'' = Inr (dated ''a'' 1, None)"
  "renderPost six_files ''src/b.md'' ''posts/b.md'' = Inr (dated ''b'' 2, None)"
  "renderPost six_files ''src/c.md'' ''posts/c.md'' = Inr (dated ''c'' 3, None)"
  "renderPost six_files ''src/d.md'' ''posts/d.md'' = Inr (dated ''d'' 4, None)"
  "renderPost six_files ''src/e.md'' ''posts/e.md'' = Inr (dated ''e'' 5, None)"
  "renderPost six_files ''src/f.md'' ''posts/f.md'' = Inr (dated ''f'' 6, None)"
  by (simp_all add: six_files_def dated_def renderPost_def example_defs loader_defs
      pattern_defs scan_defs)

lemma six_sort:
  "sort_Sort [dated ''a'' 1, dated ''b'' 2, dated ''c'' 3, dated ''d'' 4, dated ''e'' 5, dated ''f'' 6]
    = Inr [dated ''f'' 6, dated ''e'' 5, dated ''d'' 4, dated ''c'' 3, dated ''b'' 2, dated ''a'' 1]"
  by (simp add: sort_defs dated_def zero_Post_def)

lemma six_env:
  "path_Join six_files = (\<lambda>elems. join_slash (map trim_slashes elems))"
  "ReadDir six_files ''src'' = Inr [''a.md'', ''b.md'', ''c.md'', ''d.md'', ''e.md'', ''f.md'']"
  "ParseGlob six_files = (\<lambda>pattern. None)"
  "Create six_files = (\<lambda>dst. None)"
  "ExecuteTemplate six_files = (\<lambda>tmpl d. None)"
  by (simp_all add: six_files_def example_world_def)

lemma six_render_files:
  "render_files six_files ''src'' ''out'' [''a.md'', ''b.md'', ''c.md'', ''d.md'', ''e.md'', ''f.md''] [] []
    = Inr ([dated ''a'' 1, dated ''b'' 2, dated ''c'' 3, dated ''d'' 4, dated ''e'' 5, dated ''f'' 6],
       [(''out/posts/a.html'', ''default.html'', Default (dated ''a'' 1)),
        (''out/posts/b.html'', ''default.html'', Default (dated ''b'' 2)),
        (''out/posts/c.html'', ''default.html'', Default (dated ''c'' 3)),
        (''out/posts/d.html'', ''default.html'', Default (dated ''d'' 4)),
        (''out/posts/e.html'', ''default.html'', Default (dated ''e'' 5)),
        (''out/posts/f.html'', ''default.html'', Default (dated ''f'' 6))])"
  by (simp add: six_env six_renderPost trim_slashes_def renderTemplate_def)

lemma six_build:
  "indexed (main_build six_files example_Args)
     = Inr [dated ''f'' 6, dated ''e'' 5, dated ''d'' 4, dated ''c'' 3, dated ''b'' 2, dated ''a'' 1]
   \<and> archived (main_build six_files example_Args) = Inr [dated ''a'' 1]"
  by (simp add: main_build_def example_Args_def index_def six_env six_render_files six_sort
      render_site_def render_archive_def renderTemplate_def Len_def slice_def indexed_def
      archived_def page_posts_def del: render_files.simps)

text \<open>
  Claim C5, as the code has it: a build that completes has rendered the index with as
  many posts as the directory has entries, the result of sorting the parsed posts, and
  the archive with these posts without the first five when there are at least five, and
  with all of them when there are fewer than five.  (With no post at all the build does
  not complete: \<open>posts[0]\<close> panics.)
\<close>

theorem archive_after_five:
  assumes "indexed (main_build w Args) = Inr posts"
    and "ReadDir w (Args ! 1) = Inr files"
  shows "length posts = length files
       \<and> archived (main_build w Args) = Inr (if length files < 5 then posts else drop 5 posts)
       \<and> (\<exists>parsed pages.
             render_files w (Args ! 1) (Args ! 3) files [] [] = Inr (parsed, pages)
             \<and> sort_Sort parsed = Inr posts \<and> mset posts = mset parsed)
       \<and> sorted_wrt (\<lambda>x y. Date y \<le> Date x) posts"
proof -
  from assms(1) obtain out where out: "main_build w Args = Inr out"
    and posts: "page_posts (index_page out) = posts"
    by (cases "main_build w Args") (auto simp: indexed_def)
  from out have len: "4 \<le> length Args"
    by (auto simp: main_build_def index_def split: if_splits)
  with out assms(2) obtain parsed pages ordered where
    files: "render_files w (Args ! 1) (Args ! 3) files [] [] = Inr (parsed, pages)"
    and ordered: "sort_Sort parsed = Inr ordered"
    and site: "render_site w (Args ! 3) ordered pages = Inr out"
    by (auto simp: main_build_def index_def split: if_splits sum.splits option.splits)
  from render_files_length [OF files] sort_Sort_length [OF ordered]
  have "length ordered = length files" by simp
  moreover from sort_Sort_sorts [of parsed] ordered
  have "mset ordered = mset parsed" "sorted_wrt (\<lambda>x y. Date y \<le> Date x) ordered"
    by auto
  ultimately show ?thesis
    using render_site_posts [OF site] files ordered posts out
    by (auto simp: archived_def)
qed

theorem archive_after_five_witness:
  "archived (main_build six_files example_Args) = Inr [dated ''a'' 1]"
proof -
  have 1: "indexed (main_build six_files example_Args)
     = Inr [dated ''f'' 6, dated ''e'' 5, dated ''d'' 4, dated ''c'' 3, dated ''b'' 2, dated ''a'' 1]"
    using six_build by simp
  have 2: "ReadDir six_files (example_Args ! 1)
     = Inr [''a.md'', ''b.md'', ''c.md'', ''d.md'', ''e.md'', ''f.md'']"
    by (simp add: six_env example_Args_def)
  from archive_after_five [OF 1 2] show ?thesis by simp
qed

text \<open>
  Claim C5 as stated fails for fewer than five posts: the build of a directory with one
  post renders the archive with that post, not with the empty collection that is left
  after dropping five.
\<close>

theorem single_post_is_archived:
  "indexed (main_build (example_a ''hello'') example_Args)
     = Inr [zero_Post\<lparr>Body := ''hello'' @ [LF], URL := ''/posts/a.html''\<rparr>]
   \<and> archived (main_build (example_a ''hello'') example_Args)
     = Inr [zero_Post\<lparr>Body := ''hello'' @ [LF], URL := ''/posts/a.html''\<rparr>]"
  by (simp add: build_defs example_a_def example_defs loader_defs pattern_defs scan_defs
      sort_defs indexed_def archived_def page_posts_def)

end
